theory Spec2Isabelle
  imports Main
begin

section \<open>Strings\<close>

text \<open>
  A Go string is a sequence of bytes; it is modelled as a \<open>string\<close> (a list of
  characters). The three functions below are the parts of Go's \<open>strings\<close> package that
  \<open>parseDescription\<close> relies on.
\<close>

text \<open>\<open>strings.HasPrefix(s, p)\<close>: does \<open>s\<close> start with \<open>p\<close>.\<close>

fun HasPrefix :: "string \<Rightarrow> string \<Rightarrow> bool" where
  "HasPrefix s [] = True"
| "HasPrefix [] (p # ps) = False"
| "HasPrefix (c # s) (p # ps) = (c = p \<and> HasPrefix s ps)"

text \<open>
  \<open>strings.Index(s, sep)\<close>: the index of the first occurrence of \<open>sep\<close> in \<open>s\<close>;
  Go's \<open>-1\<close> is \<open>None\<close>.
\<close>

fun Index :: "string \<Rightarrow> string \<Rightarrow> nat option" where
  "Index [] sep = (if sep = [] then Some 0 else None)"
| "Index (c # s) sep =
     (if HasPrefix (c # s) sep then Some 0 else map_option Suc (Index s sep))"

text \<open>\<open>strings.Contains(s, sep)\<close> is \<open>Index(s, sep) >= 0\<close>.\<close>

definition Contains :: "string \<Rightarrow> string \<Rightarrow> bool" where
  "Contains s sep = (Index s sep \<noteq> None)"

text \<open>
  \<open>strings.SplitN(s, sep, 2)\<close> for a non-empty \<open>sep\<close>: the text before the first
  occurrence of \<open>sep\<close> and the text after it, or \<open>s\<close> alone when \<open>sep\<close> does not occur.
\<close>

definition SplitN2 :: "string \<Rightarrow> string \<Rightarrow> string list" where
  "SplitN2 s sep =
     (case Index s sep of
        None \<Rightarrow> [s]
      | Some m \<Rightarrow> [take m s, drop (m + length sep) s])"

section \<open>The description codec (events.go)\<close>

definition delim :: string where
  "delim = ''===================='' "

record description =
  prefix :: string
  suffix :: string

text \<open>The line feed character, Go's \<open>'\n'\<close>.\<close>

definition newline :: char where
  "newline = CHR 0x0A"

text \<open>
  \<open>parseDescription\<close>: split at the first delimiter; with two tokens, drop one trailing
  line feed of the prefix and one leading line feed of the suffix; with one token the
  whole text is the suffix.
\<close>

definition parseDescription :: "string \<Rightarrow> description" where
  "parseDescription s =
     (let tokens = SplitN2 s delim in
      if length tokens = 2 then
        (let p = tokens ! 0; x = tokens ! 1;
             p' = (if length p \<noteq> 0 \<and> p ! (length p - 1) = newline
                   then take (length p - 1) p else p);
             x' = (if length x \<noteq> 0 \<and> x ! 0 = newline then drop 1 x else x)
         in \<lparr>prefix = p', suffix = x'\<rparr>)
      else \<lparr>prefix = [], suffix = s\<rparr>)"

text \<open>The method \<open>String\<close> of \<open>description\<close>.\<close>

definition String :: "description \<Rightarrow> string" where
  "String d =
     (if prefix d = [] then delim @ [newline] @ suffix d
      else prefix d @ [newline] @ delim @ [newline] @ suffix d)"

section \<open>Events (events.go)\<close>

text \<open>
  Go's \<open>time.Time\<close>: an instant (nanoseconds since the epoch) shown in a time zone
  (the offset of its location, in seconds). \<open>Equal\<close> and \<open>Before\<close> compare the
  instants and ignore the zone.
\<close>

record Time =
  instant :: int
  zone :: int

definition Equal :: "Time \<Rightarrow> Time \<Rightarrow> bool" where
  "Equal t u = (instant t = instant u)"

definition Before :: "Time \<Rightarrow> Time \<Rightarrow> bool" where
  "Before t u = (instant t < instant u)"

record Event =
  Title :: string
  Start :: Time
  End :: Time
  Where :: string
  Description :: string
  SrcID :: string
  calEventID :: string

definition exportedDescription :: "Event \<Rightarrow> string" where
  "exportedDescription ev = (let d = parseDescription (Description ev) in String d)"

text \<open>The method \<open>equal\<close> of \<open>Event\<close>, with its early returns in the source's order.\<close>

definition equal_ev :: "Event \<Rightarrow> Event \<Rightarrow> bool" where
  "equal_ev ev other =
     (if Title ev \<noteq> Title other then False
      else if \<not> Equal (Start ev) (Start other) then False
      else if \<not> Equal (End ev) (End other) then False
      else if Where ev \<noteq> Where other then False
      else (let d = parseDescription (Description ev);
                otherD = parseDescription (Description other)
            in if suffix d \<noteq> suffix otherD then False
               else if SrcID ev \<noteq> SrcID other then False
               else True))"

text \<open>
  \<open>newUpdate\<close>: a copy of \<open>srcEv\<close> that takes the calendar id of \<open>ev\<close> and a
  description made of the prefix parsed from \<open>ev\<close> and the whole description of
  \<open>srcEv\<close>.
\<close>

definition newUpdate :: "Event \<Rightarrow> Event \<Rightarrow> Event" where
  "newUpdate ev srcEv =
     (let update = srcEv;
          update = update\<lparr>calEventID := calEventID ev\<rparr>;
          calDescription = parseDescription (Description ev);
          updateDescription = \<lparr>prefix = prefix calDescription, suffix = Description srcEv\<rparr>
      in update\<lparr>Description := String updateDescription\<rparr>)"

section \<open>Reconciliation (calimporter.go)\<close>

record Changes =
  Deletes :: "Event list"
  Updates :: "Event list"
  Adds :: "Event list"

text \<open>
  The first loop of \<open>getOperations\<close>: every source event that has not ended before
  \<open>now\<close> is stored under its \<open>SrcID\<close>, a later event replacing an earlier one with
  the same id.
\<close>

fun srcLoop :: "Time \<Rightarrow> Event list \<Rightarrow> (string \<rightharpoonup> Event) \<Rightarrow> (string \<rightharpoonup> Event)" where
  "srcLoop now [] srcMap = srcMap"
| "srcLoop now (ev # evs) srcMap =
     (if Before (End ev) now then srcLoop now evs srcMap
      else srcLoop now evs (srcMap(SrcID ev \<mapsto> ev)))"

text \<open>
  The second loop: a calendar event whose id is in the map is matched with the stored
  source event (an update is appended when they are not equal) and the id is deleted from
  the map; a calendar event whose id is not in the map is appended to the deletes.
\<close>

fun calLoop :: "Event list \<Rightarrow> (string \<rightharpoonup> Event) \<Rightarrow> Changes \<Rightarrow> (string \<rightharpoonup> Event) \<times> Changes" where
  "calLoop [] srcMap changes = (srcMap, changes)"
| "calLoop (calEv # rest) srcMap changes =
     (case srcMap (SrcID calEv) of
        Some srcEv \<Rightarrow>
          calLoop rest (srcMap(SrcID calEv := None))
            (if \<not> equal_ev srcEv calEv
             then changes\<lparr>Updates := Updates changes @ [newUpdate calEv srcEv]\<rparr>
             else changes)
      | None \<Rightarrow> calLoop rest srcMap (changes\<lparr>Deletes := Deletes changes @ [calEv]\<rparr>))"

text \<open>
  The third loop ranges over the map. Go visits the entries of a map in an order it does
  not specify, so the order is an argument: \<open>order\<close> lists the keys as the run visits
  them, and \<open>rangeMap\<close> yields the values stored under them, in that order.
\<close>

definition rangeMap :: "string list \<Rightarrow> (string \<rightharpoonup> Event) \<Rightarrow> Event list" where
  "rangeMap order srcMap = List.map_filter srcMap order"

fun addLoop :: "Event list \<Rightarrow> Changes \<Rightarrow> Changes" where
  "addLoop [] changes = changes"
| "addLoop (srcEv # rest) changes = addLoop rest (changes\<lparr>Adds := Adds changes @ [srcEv]\<rparr>)"

definition getOperations :: "string list \<Rightarrow> Time \<Rightarrow> Event list \<Rightarrow> Event list \<Rightarrow> Changes" where
  "getOperations order now calEvents srcEvents =
     (let changes = \<lparr>Deletes = [], Updates = [], Adds = []\<rparr>;
          srcMap = srcLoop now srcEvents Map.empty;
          (srcMap, changes) = calLoop calEvents srcMap changes
      in addLoop (rangeMap order srcMap) changes)"

section \<open>Writing to the calendar (calendar.go)\<close>

record cal =
  privateKey :: string
  calID :: string
  nop :: bool

text \<open>The fields of the calendar service's event that \<open>makeCalEvent\<close> fills.\<close>

record calendar_Event =
  Summary :: string
  Location :: string
  Description_sent :: string
  Start_DateTime :: string
  End_DateTime :: string
  Private :: "string \<rightharpoonup> string"

definition idKey :: "cal \<Rightarrow> string" where
  "idKey c = privateKey c @ ''ID''"

text \<open>
  \<open>makeCalEvent\<close>. The layout of \<open>Time.Format(time.RFC3339)\<close> belongs to Go's library
  and is the argument \<open>fmt\<close>.
\<close>

definition makeCalEvent :: "(Time \<Rightarrow> string) \<Rightarrow> cal \<Rightarrow> Event \<Rightarrow> calendar_Event" where
  "makeCalEvent fmt c ev =
     \<lparr>Summary = Title ev,
      Location = Where ev,
      Description_sent = exportedDescription ev,
      Start_DateTime = fmt (Start ev),
      End_DateTime = fmt (End ev),
      Private = [privateKey c \<mapsto> ''True'', idKey c \<mapsto> SrcID ev]\<rparr>"

text \<open>
  The requests \<open>update\<close> and \<open>add\<close> send to the calendar service: the calendar, for an
  update the id of the stored event, and the event to store. Each function is modelled by
  the request it sends, \<open>None\<close> in \<open>nop\<close> mode, where it returns before sending.
\<close>

datatype request =
  Events_Update string string calendar_Event
| Events_Insert string calendar_Event

definition update :: "(Time \<Rightarrow> string) \<Rightarrow> cal \<Rightarrow> Event \<Rightarrow> request option" where
  "update fmt c ev =
     (if nop c then None
      else (let calEvent = makeCalEvent fmt c ev
            in Some (Events_Update (calID c) (calEventID ev) calEvent)))"

definition add :: "(Time \<Rightarrow> string) \<Rightarrow> cal \<Rightarrow> Event \<Rightarrow> request option" where
  "add fmt c ev =
     (if nop c then None
      else (let calEvent = makeCalEvent fmt c ev
            in Some (Events_Insert (calID c) calEvent)))"

section \<open>Notions used to state the properties\<close>

text \<open>The events of a list that carry the source id \<open>k\<close>, in the list's order.\<close>

definition withSrcID :: "string \<Rightarrow> Event list \<Rightarrow> Event list" where
  "withSrcID k evs = filter (\<lambda>ev. SrcID ev = k) evs"

text \<open>The source events that have not ended before \<open>now\<close>.\<close>

definition live :: "Time \<Rightarrow> Event list \<Rightarrow> Event list" where
  "live now evs = filter (\<lambda>ev. \<not> Before (End ev) now) evs"

text \<open>The description a request carries.\<close>

fun sentDescription :: "request \<Rightarrow> string" where
  "sentDescription (Events_Update c i e) = Description_sent e"
| "sentDescription (Events_Insert c e) = Description_sent e"

text \<open>Every entry of the map is stored under its own source id.\<close>

definition keyed :: "(string \<rightharpoonup> Event) \<Rightarrow> bool" where
  "keyed m = (\<forall>k d. m k = Some d \<longrightarrow> SrcID d = k)"

section \<open>The fixtures of the repository's tests (ops_test.go)\<close>

text \<open>
  \<open>Time.Add\<close> on a time whose location has a fixed offset, as the times of the tests
  have (they are parsed from RFC 3339 texts): the instant moves and the offset stays. In a
  location with daylight saving Go may show the result at another offset; the instant is
  the same, and neither \<open>Equal\<close> nor \<open>Before\<close> reads the zone. \<open>time.Hour\<close> is
  in nanoseconds.
\<close>

definition Add :: "Time \<Rightarrow> int \<Rightarrow> Time" where
  "Add t d = t\<lparr>instant := instant t + d\<rparr>"

definition Hour :: int where
  "Hour = 3600000000000"

text \<open>\<open>cat\<close> joins its two arguments with a space.\<close>

definition cat :: "string \<Rightarrow> string \<Rightarrow> string" where
  "cat a b = a @ '' '' @ b"

definition newSrcEvent :: "string \<Rightarrow> Time \<Rightarrow> Event" where
  "newSrcEvent name start =
     \<lparr>Title = cat name ''title'',
      Start = start,
      End = Add start Hour,
      Where = cat name ''where'',
      Description = cat name ''description'',
      SrcID = cat name ''srcId'',
      calEventID = []\<rparr>"

definition testCalEvent :: "string \<Rightarrow> string \<Rightarrow> Event \<Rightarrow> Event" where
  "testCalEvent pre suf srcEvent =
     (let calEvent = srcEvent;
          desc = \<lparr>prefix = pre, suffix = Description srcEvent\<rparr>;
          desc = (if suf \<noteq> [] then desc\<lparr>suffix := suffix desc @ [newline] @ suf\<rparr> else desc);
          calEvent = calEvent\<lparr>Description := String desc\<rparr>
      in calEvent\<lparr>calEventID := Title srcEvent\<rparr>)"

text \<open>
  \<open>AddDate(0, 0, n)\<close> on a time whose zone has a fixed offset, as the test's
  \<open>now\<close> has: \<open>n\<close> days of 24 hours later.
\<close>

definition AddDays :: "Time \<Rightarrow> int \<Rightarrow> Time" where
  "AddDays t n = Add t (n * 24 * Hour)"

text \<open>The \<open>now\<close> of \<open>TestGetOperations\<close>, 2017-04-29T20:00:00-07:00.\<close>

definition test_now :: Time where
  "test_now = \<lparr>instant = 1493521200000000000, zone = - 25200\<rparr>"

definition test_srcEvents :: "Event list" where
  "test_srcEvents =
     [newSrcEvent ''same'' (Add test_now Hour),
      newSrcEvent ''changed'' (AddDays test_now 1),
      newSrcEvent ''hasComment'' (AddDays test_now 2),
      newSrcEvent ''hasCommentWithChange'' (AddDays test_now 2),
      newSrcEvent ''newEvent'' (AddDays test_now 3)]"

definition test_calEvents :: "Event list" where
  "test_calEvents =
     [testCalEvent [] [] (newSrcEvent ''same'' (Add test_now Hour)),
      testCalEvent [] ''This is a change'' (newSrcEvent ''changed'' (AddDays test_now 1)),
      testCalEvent ''This is a comment'' [] (newSrcEvent ''hasComment'' (AddDays test_now 2)),
      testCalEvent ''This is a comment'' ''ThisIsAChange''
        (newSrcEvent ''hasCommentWithChange'' (AddDays test_now 2)),
      testCalEvent [] [] (newSrcEvent ''removedEvent'' (AddDays test_now 4))]"

section \<open>Properties of the string functions\<close>

lemma HasPrefix_iff: "HasPrefix s p \<longleftrightarrow> (\<exists>r. s = p @ r)"
  by (induction s p rule: HasPrefix.induct) auto

lemma HasPrefix_append [simp]: "HasPrefix (p @ r) p"
  by (simp add: HasPrefix_iff)

lemma Index_None_iff: "Index s sep = None \<longleftrightarrow> \<not> (\<exists>a b. s = a @ sep @ b)"
proof (induction s)
  case Nil
  then show ?case by auto
next
  case (Cons c s)
  show ?case
  proof (cases "HasPrefix (c # s) sep")
    case True
    then obtain r where "c # s = sep @ r" by (auto simp: HasPrefix_iff)
    then have "c # s = [] @ sep @ r" by simp
    with True show ?thesis by (metis Index.simps(2) option.distinct(1))
  next
    case False
    have "(\<exists>a b. c # s = a @ sep @ b) \<longleftrightarrow> (\<exists>a b. s = a @ sep @ b)"
    proof
      assume "\<exists>a b. c # s = a @ sep @ b"
      then obtain a b where ab: "c # s = a @ sep @ b" by blast
      show "\<exists>a b. s = a @ sep @ b"
      proof (cases a)
        case Nil
        with ab False show ?thesis by (simp add: HasPrefix_iff)
      next
        case (Cons x a')
        with ab have "s = a' @ sep @ b" by simp
        then show ?thesis by blast
      qed
    next
      assume "\<exists>a b. s = a @ sep @ b"
      then obtain a b where "s = a @ sep @ b" by blast
      then have "c # s = (c # a) @ sep @ b" by simp
      then show "\<exists>a b. c # s = a @ sep @ b" by blast
    qed
    with False Cons.IH show ?thesis by simp
  qed
qed

lemma Contains_iff: "Contains s sep \<longleftrightarrow> (\<exists>a b. s = a @ sep @ b)"
  using Index_None_iff [of s sep] by (simp add: Contains_def)

lemma Index_Some_split:
  "Index s sep = Some m \<Longrightarrow> s = take m s @ sep @ drop (m + length sep) s"
proof (induction s arbitrary: m)
  case Nil
  then show ?case by (simp split: if_splits)
next
  case (Cons c s)
  show ?case
  proof (cases "HasPrefix (c # s) sep")
    case True
    with Cons.prems have "m = 0" by simp
    with True show ?thesis by (auto simp: HasPrefix_iff)
  next
    case False
    with Cons.prems obtain k where k: "Index s sep = Some k" "m = Suc k" by auto
    from Cons.IH [OF k(1)] k(2) show ?thesis by simp
  qed
qed

lemma Index_Some_first:
  "Index s sep = Some m \<Longrightarrow> sep \<noteq> [] \<Longrightarrow> \<not> Contains (take m s) sep"
proof (induction s arbitrary: m)
  case Nil
  then show ?case by (simp split: if_splits)
next
  case (Cons c s)
  show ?case
  proof (cases "HasPrefix (c # s) sep")
    case True
    with Cons.prems have "m = 0" by simp
    with Cons.prems(2) show ?thesis by (simp add: Contains_def)
  next
    case False
    with Cons.prems obtain k where k: "Index s sep = Some k" "m = Suc k" by auto
    have nk: "\<not> Contains (take k s) sep" using Cons.IH [OF k(1) Cons.prems(2)] .
    have np: "\<not> HasPrefix (c # take k s) sep"
    proof
      assume "HasPrefix (c # take k s) sep"
      then obtain r where "c # take k s = sep @ r" by (auto simp: HasPrefix_iff)
      then have "c # s = sep @ (r @ drop k s)"
        by (metis append_Cons append_assoc append_take_drop_id)
      with False show False by (simp add: HasPrefix_iff)
    qed
    from nk np k(2) show ?thesis by (simp add: Contains_def)
  qed
qed

lemma Index_sep_first: "Index (sep @ r) sep = Some 0"
proof (cases "sep @ r")
  case Nil
  then show ?thesis by simp
next
  case (Cons x xs)
  have "HasPrefix (sep @ r) sep" by simp
  with Cons show ?thesis by simp
qed

lemma HasPrefix_blocked:
  "c \<notin> set sep \<Longrightarrow> \<not> Contains a sep \<Longrightarrow> a \<noteq> [] \<Longrightarrow> \<not> HasPrefix (a @ c # r) sep"
proof
  assume c: "c \<notin> set sep" and a: "\<not> Contains a sep" and ne: "a \<noteq> []"
    and h: "HasPrefix (a @ c # r) sep"
  from h obtain t where t: "a @ c # r = sep @ t" by (auto simp: HasPrefix_iff)
  show False
  proof (cases "length sep \<le> length a")
    case True
    from t have "take (length a) (a @ c # r) = take (length a) (sep @ t)" by simp
    with True have "a = sep @ take (length a - length sep) t" by simp
    then have "a = [] @ sep @ take (length a - length sep) t" by simp
    with a show False unfolding Contains_iff by blast
  next
    case False
    then have "length a < length sep" by simp
    from t have "(sep @ t) ! length a = (a @ c # r) ! length a" by simp
    with \<open>length a < length sep\<close> have "sep ! length a = c" by (simp add: nth_append)
    with \<open>length a < length sep\<close> c show False by (metis nth_mem)
  qed
qed

lemma Index_after_block:
  "c \<notin> set sep \<Longrightarrow> sep \<noteq> [] \<Longrightarrow> \<not> Contains a sep \<Longrightarrow>
   Index (a @ c # sep @ r) sep = Some (Suc (length a))"
proof (induction a)
  case Nil
  have "\<not> HasPrefix (c # sep @ r) sep"
  proof
    assume "HasPrefix (c # sep @ r) sep"
    then obtain t where "c # sep @ r = sep @ t" by (auto simp: HasPrefix_iff)
    with Nil.prems(2) have "hd sep = c" by (cases sep) auto
    with Nil.prems(1,2) show False by (cases sep) auto
  qed
  then show ?case by (simp add: Index_sep_first)
next
  case (Cons x a)
  have na: "\<not> Contains a sep"
  proof
    assume "Contains a sep"
    then obtain u v where "a = u @ sep @ v" unfolding Contains_iff by blast
    then have "x # a = (x # u) @ sep @ v" by simp
    with Cons.prems(3) show False unfolding Contains_iff by blast
  qed
  have "\<not> HasPrefix ((x # a) @ c # sep @ r) sep"
    using HasPrefix_blocked [OF Cons.prems(1) Cons.prems(3)] by simp
  with Cons.IH [OF Cons.prems(1,2) na] show ?case by simp
qed

section \<open>Properties of the description codec\<close>

lemma delim_nonempty: "delim \<noteq> []"
  by (simp add: delim_def)

lemma newline_notin_delim: "newline \<notin> set delim"
  by (simp add: delim_def newline_def)

lemma parseDescription_absent:
  "\<not> Contains s delim \<Longrightarrow> parseDescription s = \<lparr>prefix = [], suffix = s\<rparr>"
  by (simp add: parseDescription_def SplitN2_def Contains_def)

lemma strip_last:
  "(if length p \<noteq> 0 \<and> p ! (length p - 1) = c then take (length p - 1) p else p) =
   (if p \<noteq> [] \<and> last p = c then butlast p else p)"
  by (cases "p = []") (simp_all add: last_conv_nth butlast_conv_take)

lemma strip_hd:
  "(if length x \<noteq> 0 \<and> x ! 0 = c then drop 1 x else x) =
   (if x \<noteq> [] \<and> hd x = c then tl x else x)"
  by (cases x) simp_all

lemma parseDescription_tokens:
  assumes "SplitN2 s delim = [p, x]"
  shows "parseDescription s =
    \<lparr>prefix = (if p \<noteq> [] \<and> last p = newline then butlast p else p),
     suffix = (if x \<noteq> [] \<and> hd x = newline then tl x else x)\<rparr>"
proof -
  have "parseDescription s =
    \<lparr>prefix = (if length p \<noteq> 0 \<and> p ! (length p - 1) = newline then take (length p - 1) p else p),
     suffix = (if length x \<noteq> 0 \<and> x ! 0 = newline then drop 1 x else x)\<rparr>"
    using assms by (simp add: parseDescription_def Let_def)
  then show ?thesis by (simp only: strip_last strip_hd)
qed

lemma parseDescription_present:
  assumes "Index s delim = Some m"
  shows "parseDescription s =
    \<lparr>prefix = (if take m s \<noteq> [] \<and> last (take m s) = newline then butlast (take m s) else take m s),
     suffix = (if drop (m + length delim) s \<noteq> [] \<and> hd (drop (m + length delim) s) = newline
               then tl (drop (m + length delim) s) else drop (m + length delim) s)\<rparr>"
proof -
  have "SplitN2 s delim = [take m s, drop (m + length delim) s]"
    using assms by (simp add: SplitN2_def)
  then show ?thesis by (rule parseDescription_tokens)
qed

lemma parse_String:
  assumes "\<not> Contains a delim"
  shows "parseDescription (String \<lparr>prefix = a, suffix = m\<rparr>) = \<lparr>prefix = a, suffix = m\<rparr>"
proof (cases "a = []")
  case True
  have "Index (delim @ newline # m) delim = Some 0" by (rule Index_sep_first)
  from parseDescription_present [OF this] True show ?thesis
    by (simp add: String_def)
next
  case False
  have "Index (a @ newline # delim @ newline # m) delim = Some (Suc (length a))"
    using Index_after_block [OF newline_notin_delim delim_nonempty assms] .
  from parseDescription_present [OF this] False show ?thesis
    by (simp add: String_def)
qed

lemma prefix_parse_no_delim: "\<not> Contains (prefix (parseDescription s)) delim"
proof (cases "Index s delim")
  case None
  then have "\<not> Contains s delim" by (simp add: Contains_def)
  then have "prefix (parseDescription s) = []" by (simp add: parseDescription_absent)
  then show ?thesis by (simp add: Contains_def delim_nonempty)
next
  case (Some m)
  have n: "\<not> Contains (take m s) delim" using Index_Some_first [OF Some delim_nonempty] .
  have "\<not> Contains (butlast (take m s)) delim"
  proof
    assume "Contains (butlast (take m s)) delim"
    then obtain u v where uv: "butlast (take m s) = u @ delim @ v" unfolding Contains_iff by blast
    have ne: "take m s \<noteq> []"
    proof
      assume "take m s = []"
      with uv have "u @ delim @ v = []" by simp
      with delim_nonempty show False by simp
    qed
    have "take m s = butlast (take m s) @ [last (take m s)]" using ne by simp
    with uv have "take m s = u @ delim @ (v @ [last (take m s)])" by simp
    with n show False unfolding Contains_iff by blast
  qed
  with n show ?thesis by (simp add: parseDescription_present [OF Some])
qed

lemma parse_String_parse: "parseDescription (String (parseDescription s)) = parseDescription s"
proof -
  obtain a m where am: "parseDescription s = \<lparr>prefix = a, suffix = m\<rparr>"
    by (cases "parseDescription s") simp
  have "\<not> Contains (prefix (parseDescription s)) delim" by (rule prefix_parse_no_delim)
  with am have "\<not> Contains a delim" by simp
  then have "parseDescription (String \<lparr>prefix = a, suffix = m\<rparr>) = \<lparr>prefix = a, suffix = m\<rparr>"
    by (rule parse_String)
  with am show ?thesis by simp
qed

lemma Contains_String: "Contains (String d) delim"
proof (cases "prefix d = []")
  case True
  then have "String d = [] @ delim @ (newline # suffix d)" by (simp add: String_def)
  then show ?thesis unfolding Contains_iff by blast
next
  case False
  then have "String d = (prefix d @ [newline]) @ delim @ (newline # suffix d)" by (simp add: String_def)
  then show ?thesis unfolding Contains_iff by blast
qed

section \<open>Properties of the reconciliation, one source id at a time\<close>

lemma withSrcID_simps [simp]:
  "withSrcID k [] = []"
  "withSrcID k (ev # evs) = (if SrcID ev = k then ev # withSrcID k evs else withSrcID k evs)"
  "withSrcID k (xs @ ys) = withSrcID k xs @ withSrcID k ys"
  by (simp_all add: withSrcID_def)

lemma set_withSrcID: "set (withSrcID k evs) = {ev \<in> set evs. SrcID ev = k}"
  by (simp add: withSrcID_def)

lemma live_simps [simp]:
  "live now [] = []"
  "live now (ev # evs) = (if Before (End ev) now then live now evs else ev # live now evs)"
  by (simp_all add: live_def)

lemma srcLoop_lookup:
  "srcLoop now src m k =
     (if withSrcID k (live now src) = [] then m k
      else Some (last (withSrcID k (live now src))))"
  by (induction src arbitrary: m) auto

lemma srcLoop_keyed: "keyed (srcLoop now src Map.empty)"
proof -
  have "SrcID d = k" if "srcLoop now src Map.empty k = Some d" for k d
  proof -
    from that have ne: "withSrcID k (live now src) \<noteq> []"
      and d: "d = last (withSrcID k (live now src))"
      by (auto simp: srcLoop_lookup split: if_splits)
    from ne d have "d \<in> set (withSrcID k (live now src))" by simp
    then show ?thesis by (simp add: set_withSrcID)
  qed
  then show ?thesis by (simp add: keyed_def)
qed

lemma keyed_delete: "keyed m \<Longrightarrow> keyed (m(k := None))"
  by (simp add: keyed_def)

lemma SrcID_newUpdate [simp]: "SrcID (newUpdate r d) = SrcID d"
  by (simp add: newUpdate_def)

lemma calLoop_map:
  "fst (calLoop cal m ch) = (\<lambda>j. if j \<in> SrcID ` set cal then None else m j)"
  by (induction cal arbitrary: m ch) (auto split: option.splits)

lemma calLoop_Adds: "Adds (snd (calLoop cal m ch)) = Adds ch"
  by (induction cal arbitrary: m ch) (auto split: option.splits)

lemma calLoop_Deletes:
  "withSrcID k (Deletes (snd (calLoop cal m ch))) =
     withSrcID k (Deletes ch) @
     (if m k = None then withSrcID k cal else tl (withSrcID k cal))"
  by (induction cal arbitrary: m ch) (auto split: option.splits)

lemma calLoop_Updates:
  "keyed m \<Longrightarrow>
   withSrcID k (Updates (snd (calLoop cal m ch))) =
     withSrcID k (Updates ch) @
     (case m k of None \<Rightarrow> []
      | Some d \<Rightarrow>
          (case withSrcID k cal of [] \<Rightarrow> []
           | r # rs \<Rightarrow> if equal_ev d r then [] else [newUpdate r d]))"
proof (induction cal arbitrary: m ch)
  case Nil
  then show ?case by (simp split: option.splits)
next
  case (Cons calEv rest)
  show ?case
  proof (cases "m (SrcID calEv)")
    case None
    with Cons.IH [OF Cons.prems] show ?thesis
      by (auto split: option.splits)
  next
    case (Some srcEv)
    with Cons.prems have s: "SrcID srcEv = SrcID calEv" by (simp add: keyed_def)
    note IH = Cons.IH [OF keyed_delete [OF Cons.prems, of "SrcID calEv"]]
    from Some s show ?thesis
      by (auto simp: IH split: option.splits)
  qed
qed

lemma addLoop_fields:
  "Adds (addLoop xs ch) = Adds ch @ xs"
  "Deletes (addLoop xs ch) = Deletes ch"
  "Updates (addLoop xs ch) = Updates ch"
  by (induction xs arbitrary: ch) auto

lemma rangeMap_absent:
  "m k = None \<Longrightarrow> keyed m \<Longrightarrow> withSrcID k (rangeMap order m) = []"
  by (induction order) (auto simp: rangeMap_def List.map_filter_simps keyed_def split: option.splits)

lemma rangeMap_present:
  "m k = Some d \<Longrightarrow> keyed m \<Longrightarrow> distinct order \<Longrightarrow> k \<in> set order \<Longrightarrow>
   withSrcID k (rangeMap order m) = [d]"
proof (induction order)
  case Nil
  then show ?case by simp
next
  case (Cons x xs)
  show ?case
  proof (cases "x = k")
    case True
    with Cons.prems have "k \<notin> set xs" by simp
    then have "withSrcID k (rangeMap xs m) = []"
      using Cons.prems(2)
      by (induction xs) (auto simp: rangeMap_def List.map_filter_simps keyed_def split: option.splits)
    with True Cons.prems show ?thesis
      by (auto simp: rangeMap_def List.map_filter_simps keyed_def)
  next
    case False
    with Cons show ?thesis
      by (auto simp: rangeMap_def List.map_filter_simps keyed_def split: option.splits)
  qed
qed

lemma set_rangeMap: "set (rangeMap order m) \<subseteq> ran m"
  by (induction order) (auto simp: rangeMap_def List.map_filter_simps ran_def split: option.splits)

lemma getOperations_unfold:
  "getOperations order now cal src =
     addLoop (rangeMap order (fst (calLoop cal (srcLoop now src Map.empty) \<lparr>Deletes = [], Updates = [], Adds = []\<rparr>)))
       (snd (calLoop cal (srcLoop now src Map.empty) \<lparr>Deletes = [], Updates = [], Adds = []\<rparr>))"
  by (simp add: getOperations_def Let_def split_def)

lemma getOperations_Deletes:
  "withSrcID k (Deletes (getOperations order now cal src)) =
     (if withSrcID k (live now src) = [] then withSrcID k cal else tl (withSrcID k cal))"
  by (simp add: getOperations_unfold addLoop_fields calLoop_Deletes srcLoop_lookup)

lemma getOperations_Updates:
  "withSrcID k (Updates (getOperations order now cal src)) =
     (if withSrcID k (live now src) = [] then []
      else (case withSrcID k cal of [] \<Rightarrow> []
            | r # rs \<Rightarrow>
                if equal_ev (last (withSrcID k (live now src))) r then []
                else [newUpdate r (last (withSrcID k (live now src)))]))"
  by (simp add: getOperations_unfold addLoop_fields calLoop_Updates [OF srcLoop_keyed] srcLoop_lookup)

lemma final_map:
  "fst (calLoop cal (srcLoop now src Map.empty) ch) k =
     (if withSrcID k cal = [] \<and> withSrcID k (live now src) \<noteq> []
      then Some (last (withSrcID k (live now src))) else None)"
proof -
  have "k \<in> SrcID ` set cal \<longleftrightarrow> withSrcID k cal \<noteq> []"
    by (auto simp: withSrcID_def filter_empty_conv)
  then show ?thesis by (simp add: calLoop_map srcLoop_lookup)
qed

lemma keyed_final: "keyed (fst (calLoop cal (srcLoop now src Map.empty) ch))"
  using srcLoop_keyed [of now src] by (simp add: calLoop_map keyed_def)

lemma getOperations_Adds_none:
  "withSrcID k cal \<noteq> [] \<or> withSrcID k (live now src) = [] \<Longrightarrow>
   withSrcID k (Adds (getOperations order now cal src)) = []"
  by (auto simp: getOperations_unfold addLoop_fields calLoop_Adds
      intro!: rangeMap_absent keyed_final simp: final_map)

lemma getOperations_Adds_one:
  "withSrcID k cal = [] \<Longrightarrow> withSrcID k (live now src) \<noteq> [] \<Longrightarrow>
   distinct order \<Longrightarrow> k \<in> set order \<Longrightarrow>
   withSrcID k (Adds (getOperations order now cal src)) = [last (withSrcID k (live now src))]"
  by (simp add: getOperations_unfold addLoop_fields calLoop_Adds)
     (rule rangeMap_present, simp_all add: final_map keyed_final)

lemma first_withSrcID:
  "SrcID r \<notin> SrcID ` set xs \<Longrightarrow> withSrcID (SrcID r) (xs @ r # ys) = r # withSrcID (SrcID r) ys"
  by (induction xs) auto

lemma last_live_withSrcID:
  assumes "\<not> Before (End d) now"
    and "\<forall>e\<in>set es. SrcID e = SrcID d \<longrightarrow> Before (End e) now"
  shows "withSrcID (SrcID d) (live now (ds @ d # es)) = withSrcID (SrcID d) (live now ds) @ [d]"
proof -
  have e: "withSrcID (SrcID d) (live now es) = []"
    using assms(2) by (induction es) auto
  have "live now (ds @ d # es) = live now ds @ d # live now es"
    using assms(1) by (simp add: live_def)
  with e show ?thesis by simp
qed

lemma newUpdate_fields:
  "newUpdate r d =
     d\<lparr>calEventID := calEventID r,
       Description := String \<lparr>prefix = prefix (parseDescription (Description r)),
                              suffix = Description d\<rparr>\<rparr>"
  by (simp add: newUpdate_def)

lemma getOperations_single_pair:
  assumes "SrcID d = SrcID r" and "\<not> Before (End d) now"
  shows "getOperations order now [r] [d] =
     \<lparr>Deletes = [], Updates = (if equal_ev d r then [] else [newUpdate r d]), Adds = []\<rparr>"
proof -
  have "rangeMap order (\<lambda>k. None) = []"
    by (induction order) (simp_all add: rangeMap_def List.map_filter_simps)
  moreover have "[SrcID r \<mapsto> d](SrcID r := None) = (\<lambda>k. None)"
    by auto
  ultimately show ?thesis
    using assms by (simp add: getOperations_def)
qed

lemma srcLoop_append: "srcLoop now (xs @ ys) m = srcLoop now ys (srcLoop now xs m)"
  by (induction xs arbitrary: m) auto

lemma srcLoop_live: "srcLoop now (live now src) m = srcLoop now src m"
  by (induction src arbitrary: m) auto

lemma last_in_live:
  assumes "withSrcID k (live now src) \<noteq> []"
  shows "last (withSrcID k (live now src)) \<in> set src \<and>
         SrcID (last (withSrcID k (live now src))) = k \<and>
         \<not> Before (End (last (withSrcID k (live now src)))) now"
proof -
  from assms have "last (withSrcID k (live now src)) \<in> set (withSrcID k (live now src))"
    by simp
  then show ?thesis by (simp add: withSrcID_def live_def)
qed

lemma Adds_live:
  assumes "d \<in> set (Adds (getOperations order now cal src))"
  shows "d \<in> set src \<and> \<not> Before (End d) now"
proof -
  let ?m = "fst (calLoop cal (srcLoop now src Map.empty) \<lparr>Deletes = [], Updates = [], Adds = []\<rparr>)"
  from assms have "d \<in> set (rangeMap order ?m)"
    by (simp add: getOperations_unfold addLoop_fields calLoop_Adds)
  with set_rangeMap have "d \<in> ran ?m" by blast
  then obtain k where k: "?m k = Some d" by (auto simp: ran_def)
  then have "withSrcID k (live now src) \<noteq> []" and "d = last (withSrcID k (live now src))"
    by (auto simp: final_map split: if_splits)
  with last_in_live [of k now src] show ?thesis by simp
qed

lemma getOperations_live:
  "getOperations order now cal (live now src) = getOperations order now cal src"
  by (simp add: getOperations_def srcLoop_live)

lemma all_expired_withSrcID:
  "(\<forall>d\<in>set src. SrcID d = k \<longrightarrow> Before (End d) now) \<Longrightarrow> withSrcID k (live now src) = []"
  by (induction src) auto

lemma withSrcID_all_empty: "(\<And>k. withSrcID k evs = []) \<Longrightarrow> evs = []"
proof (cases evs)
  case Nil
  then show ?thesis by simp
next
  case (Cons e es)
  assume "\<And>k. withSrcID k evs = []"
  then have "withSrcID (SrcID e) evs = []" .
  with Cons show ?thesis by simp
qed

lemma withSrcID_distinct:
  "distinct (map SrcID evs) \<Longrightarrow> e \<in> set evs \<Longrightarrow> withSrcID (SrcID e) evs = [e]"
proof (induction evs)
  case Nil
  then show ?case by simp
next
  case (Cons x xs)
  have none: "withSrcID (SrcID x) xs = []"
  proof -
    from Cons.prems(1) have "SrcID x \<notin> SrcID ` set xs" by simp
    then have "\<forall>y\<in>set xs. SrcID y \<noteq> SrcID x" by (metis imageI)
    then show ?thesis by (simp add: withSrcID_def filter_empty_conv)
  qed
  show ?case
  proof (cases "e = x")
    case True
    with none show ?thesis by simp
  next
    case False
    with Cons.prems have "e \<in> set xs" and "SrcID x \<noteq> SrcID e" by auto
    with Cons show ?thesis by simp
  qed
qed

lemma equal_ev_SrcID: "equal_ev d r \<Longrightarrow> SrcID d = SrcID r"
  by (simp add: equal_ev_def Let_def split: if_splits)

lemma withSrcID_nonempty: "e \<in> set evs \<Longrightarrow> withSrcID (SrcID e) evs \<noteq> []"
  by (auto simp: withSrcID_def filter_empty_conv)

lemma withSrcID_hd: "withSrcID k evs \<noteq> [] \<Longrightarrow> hd (withSrcID k evs) \<in> set evs \<and> SrcID (hd (withSrcID k evs)) = k"
proof -
  assume "withSrcID k evs \<noteq> []"
  then have "hd (withSrcID k evs) \<in> set (withSrcID k evs)" by simp
  then show ?thesis by (simp add: withSrcID_def)
qed

lemma live_all: "(\<forall>d\<in>set src. \<not> Before (End d) now) \<Longrightarrow> live now src = src"
  by (simp add: live_def)

lemma Changes_empty:
  "Deletes c = [] \<Longrightarrow> Updates c = [] \<Longrightarrow> Adds c = [] \<Longrightarrow>
   c = \<lparr>Deletes = [], Updates = [], Adds = []\<rparr>"
  by (cases c) simp

section \<open>The repository's tests, run on the model\<close>

text \<open>
  \<open>TestFallback\<close> and \<open>TestCommentPreservation\<close> of description_test.go, and
  \<open>TestGetOperations\<close> of ops_test.go with the keys of the map visited in the order of
  the source events: one delete, two updates (the second keeps the comment in front of the
  delimiter) and one add.
\<close>

lemma TestFallback:
  "prefix (parseDescription ''foo'') = [] \<and> suffix (parseDescription ''foo'') = ''foo''"
  by code_simp

lemma TestCommentPreservation:
  "String \<lparr>prefix = ''testprefix'', suffix = ''testsuffix''\<rparr> =
     ''testprefix'' @ [newline] @ delim @ [newline] @ ''testsuffix'' \<and>
   parseDescription (String \<lparr>prefix = ''testprefix'', suffix = ''testsuffix''\<rparr>) =
     \<lparr>prefix = ''testprefix'', suffix = ''testsuffix''\<rparr>"
  by code_simp

lemma TestGetOperations:
  "map calEventID
     (Deletes (getOperations (map SrcID test_srcEvents) test_now test_calEvents test_srcEvents)) =
     [''removedEvent title''] \<and>
   map Title
     (Updates (getOperations (map SrcID test_srcEvents) test_now test_calEvents test_srcEvents)) =
     [''changed title'', ''hasCommentWithChange title''] \<and>
   list_all (\<lambda>ev. Title ev = ''hasCommentWithChange title'' \<longrightarrow>
       HasPrefix (Description ev) (''This is a comment'' @ [newline] @ delim))
     (Updates (getOperations (map SrcID test_srcEvents) test_now test_calEvents test_srcEvents)) \<and>
   map Title
     (Adds (getOperations (map SrcID test_srcEvents) test_now test_calEvents test_srcEvents)) =
     [''newEvent title'']"
  by code_simp

section \<open>The codec: round trip, fallback, export\<close>

text \<open>
  C3 (round trip of the codec). For every annotation \<open>a\<close> in which the delimiter does not
  occur and every managed text \<open>m\<close>, parsing the serialisation of the description with
  prefix \<open>a\<close> and suffix \<open>m\<close> gives that description back.
\<close>

theorem parse_serialize_roundtrip:
  "\<not> Contains a delim \<Longrightarrow>
   parseDescription (String \<lparr>prefix = a, suffix = m\<rparr>) = \<lparr>prefix = a, suffix = m\<rparr>"
  by (rule parse_String)

theorem parse_serialize_roundtrip_witness:
  "\<not> Contains ''testprefix'' delim \<and>
   parseDescription (String \<lparr>prefix = ''testprefix'', suffix = ''testsuffix''\<rparr>) =
     \<lparr>prefix = ''testprefix'', suffix = ''testsuffix''\<rparr>"
proof -
  have h: "\<not> Contains ''testprefix'' delim"
    by (simp add: Contains_def delim_def)
  from parse_serialize_roundtrip [OF h] h show ?thesis by simp
qed

text \<open>
  C7 (fallback). For every text \<open>s\<close> in which the delimiter does not occur,
  \<open>parseDescription s\<close> has an empty prefix and the whole of \<open>s\<close> as its suffix.
\<close>

theorem parse_fallback:
  "\<not> Contains s delim \<Longrightarrow> parseDescription s = \<lparr>prefix = [], suffix = s\<rparr>"
  by (rule parseDescription_absent)

theorem parse_fallback_witness:
  "\<not> Contains ''foo'' delim \<and> parseDescription ''foo'' = \<lparr>prefix = [], suffix = ''foo''\<rparr>"
proof -
  have h: "\<not> Contains ''foo'' delim"
    by (simp add: Contains_def delim_def)
  from parse_fallback [OF h] h show ?thesis by simp
qed

text \<open>
  C8 (idempotent export). Serialising the parse of a text that is itself the serialised
  parse of some text changes nothing; so exporting an event whose description is already
  an exported description returns that description.
\<close>

theorem export_idempotent:
  "String (parseDescription (String (parseDescription s))) = String (parseDescription s) \<and>
   exportedDescription (ev\<lparr>Description := exportedDescription ev\<rparr>) = exportedDescription ev"
  by (simp add: exportedDescription_def parse_String_parse)

text \<open>
  C9 (the delimiter is in every description written). The serialiser's output always
  contains the delimiter, so \<open>exportedDescription\<close> does; \<open>makeCalEvent\<close> sets the
  description to \<open>exportedDescription\<close>, and the requests of \<open>add\<close> and \<open>update\<close>
  carry the event \<open>makeCalEvent\<close> builds.
\<close>

theorem delimiter_in_every_write:
  "Contains (String d) delim \<and>
   Contains (exportedDescription ev) delim \<and>
   Description_sent (makeCalEvent fmt c ev) = exportedDescription ev \<and>
   (\<forall>req. add fmt c ev = Some req \<longrightarrow>
      req = Events_Insert (calID c) (makeCalEvent fmt c ev) \<and>
      Contains (sentDescription req) delim) \<and>
   (\<forall>req. update fmt c ev = Some req \<longrightarrow>
      req = Events_Update (calID c) (calEventID ev) (makeCalEvent fmt c ev) \<and>
      Contains (sentDescription req) delim)"
proof -
  have e: "Contains (exportedDescription ev) delim"
    by (simp add: exportedDescription_def Contains_String)
  have m: "Description_sent (makeCalEvent fmt c ev) = exportedDescription ev"
    by (simp add: makeCalEvent_def)
  have a: "\<forall>req. add fmt c ev = Some req \<longrightarrow>
      req = Events_Insert (calID c) (makeCalEvent fmt c ev) \<and>
      Contains (sentDescription req) delim"
    using e m by (auto simp: add_def split: if_splits)
  have u: "\<forall>req. update fmt c ev = Some req \<longrightarrow>
      req = Events_Update (calID c) (calEventID ev) (makeCalEvent fmt c ev) \<and>
      Contains (sentDescription req) delim"
    using e m by (auto simp: update_def split: if_splits)
  from Contains_String e m a u show ?thesis by blast
qed

theorem delimiter_in_every_write_witness:
  "add (\<lambda>t. []) \<lparr>privateKey = ''k'', calID = ''primary'', nop = False\<rparr>
      \<lparr>Title = ''t'', Start = \<lparr>instant = 0, zone = 0\<rparr>, End = \<lparr>instant = 1, zone = 0\<rparr>,
       Where = ''w'', Description = ''body'', SrcID = ''x'', calEventID = []\<rparr>
    = Some (Events_Insert ''primary''
        \<lparr>Summary = ''t'', Location = ''w'',
         Description_sent = delim @ [newline] @ ''body'',
         Start_DateTime = [], End_DateTime = [],
         Private = [''k'' \<mapsto> ''True'', ''kID'' \<mapsto> ''x'']\<rparr>) \<and>
   Contains (delim @ [newline] @ ''body'') delim"
proof -
  let ?c = "\<lparr>privateKey = ''k'', calID = ''primary'', nop = False\<rparr>"
  let ?ev = "\<lparr>Title = ''t'', Start = \<lparr>instant = 0, zone = 0\<rparr>, End = \<lparr>instant = 1, zone = 0\<rparr>,
       Where = ''w'', Description = ''body'', SrcID = ''x'', calEventID = []\<rparr>"
  let ?req = "Events_Insert ''primary''
        \<lparr>Summary = ''t'', Location = ''w'',
         Description_sent = delim @ [newline] @ ''body'',
         Start_DateTime = [], End_DateTime = [],
         Private = [''k'' \<mapsto> ''True'', ''kID'' \<mapsto> ''x'']\<rparr>"
  have p: "parseDescription ''body'' = \<lparr>prefix = [], suffix = ''body''\<rparr>"
    by (rule parseDescription_absent) (simp add: Contains_def delim_def)
  have s: "add (\<lambda>t. []) ?c ?ev = Some ?req"
    by (simp add: add_def makeCalEvent_def exportedDescription_def p String_def idKey_def)
  from delimiter_in_every_write [where fmt = "\<lambda>t. []" and c = ?c and ev = ?ev] s
  have "Contains (sentDescription ?req) delim" by blast
  with s show ?thesis by simp
qed

section \<open>The reconciler: equality, updates, duplicate ids\<close>

text \<open>
  C2 (the equality policy). \<open>equal\<close> holds exactly when the titles, the places and the
  source ids are the same, the start times are the same instant and so are the end times
  (\<open>Time.Equal\<close> compares instants, whatever the zones they are shown in), and the
  suffixes parsed from the two descriptions are the same. So the prefixes of the
  descriptions never matter, a difference of the suffixes always makes the events unequal,
  and the calendar ids are not looked at: changing them changes nothing.
\<close>

theorem equal_policy:
  "(equal_ev r d \<longleftrightarrow>
      Title r = Title d \<and>
      instant (Start r) = instant (Start d) \<and>
      instant (End r) = instant (End d) \<and>
      Where r = Where d \<and>
      SrcID r = SrcID d \<and>
      suffix (parseDescription (Description r)) = suffix (parseDescription (Description d))) \<and>
   equal_ev (r\<lparr>calEventID := i\<rparr>) (d\<lparr>calEventID := j\<rparr>) = equal_ev r d"
proof -
  have "equal_ev r d \<longleftrightarrow>
      Title r = Title d \<and> Equal (Start r) (Start d) \<and> Equal (End r) (End d) \<and>
      Where r = Where d \<and> SrcID r = SrcID d \<and>
      suffix (parseDescription (Description r)) = suffix (parseDescription (Description d))"
    by (auto simp: equal_ev_def Let_def)
  moreover have "equal_ev (r\<lparr>calEventID := i\<rparr>) (d\<lparr>calEventID := j\<rparr>) = equal_ev r d"
    by (simp add: equal_ev_def)
  ultimately show ?thesis by (simp add: Equal_def)
qed

text \<open>
  C1 as stated fails. Two calendar events carry the source id of the one source event,
  which has not ended; the source event is equal to the first of them and not equal to the
  second. The first calendar event claims the map's entry and needs no update; the second
  finds the id gone and is deleted. So the second calendar event and the source event share
  the id and are not equal, and yet no update is produced.
\<close>

theorem update_later_remote_counterexample:
  "SrcID \<lparr>Title = ''other'', Start = \<lparr>instant = 10, zone = 0\<rparr>, End = \<lparr>instant = 20, zone = 0\<rparr>,
           Where = ''w'', Description = ''body'', SrcID = ''x'', calEventID = ''r2''\<rparr> =
   SrcID \<lparr>Title = ''t'', Start = \<lparr>instant = 10, zone = 0\<rparr>, End = \<lparr>instant = 20, zone = 0\<rparr>,
           Where = ''w'', Description = ''body'', SrcID = ''x'', calEventID = []\<rparr> \<and>
   \<not> Before (End \<lparr>Title = ''t'', Start = \<lparr>instant = 10, zone = 0\<rparr>, End = \<lparr>instant = 20, zone = 0\<rparr>,
           Where = ''w'', Description = ''body'', SrcID = ''x'', calEventID = []\<rparr>)
      \<lparr>instant = 0, zone = 0\<rparr> \<and>
   \<not> equal_ev
      \<lparr>Title = ''t'', Start = \<lparr>instant = 10, zone = 0\<rparr>, End = \<lparr>instant = 20, zone = 0\<rparr>,
       Where = ''w'', Description = ''body'', SrcID = ''x'', calEventID = []\<rparr>
      \<lparr>Title = ''other'', Start = \<lparr>instant = 10, zone = 0\<rparr>, End = \<lparr>instant = 20, zone = 0\<rparr>,
       Where = ''w'', Description = ''body'', SrcID = ''x'', calEventID = ''r2''\<rparr> \<and>
   getOperations [''x''] \<lparr>instant = 0, zone = 0\<rparr>
     [\<lparr>Title = ''t'', Start = \<lparr>instant = 10, zone = 0\<rparr>, End = \<lparr>instant = 20, zone = 0\<rparr>,
       Where = ''w'', Description = ''body'', SrcID = ''x'', calEventID = ''r1''\<rparr>,
      \<lparr>Title = ''other'', Start = \<lparr>instant = 10, zone = 0\<rparr>, End = \<lparr>instant = 20, zone = 0\<rparr>,
       Where = ''w'', Description = ''body'', SrcID = ''x'', calEventID = ''r2''\<rparr>]
     [\<lparr>Title = ''t'', Start = \<lparr>instant = 10, zone = 0\<rparr>, End = \<lparr>instant = 20, zone = 0\<rparr>,
       Where = ''w'', Description = ''body'', SrcID = ''x'', calEventID = []\<rparr>] =
   \<lparr>Deletes =
      [\<lparr>Title = ''other'', Start = \<lparr>instant = 10, zone = 0\<rparr>, End = \<lparr>instant = 20, zone = 0\<rparr>,
        Where = ''w'', Description = ''body'', SrcID = ''x'', calEventID = ''r2''\<rparr>],
    Updates = [], Adds = []\<rparr>"
  by (simp add: equal_ev_def Equal_def Before_def getOperations_def rangeMap_def
      List.map_filter_simps)

text \<open>
  C1 as amended. Let \<open>r\<close> be the first calendar event carrying its source id and
  \<open>d\<close> a source event with the same id that has not ended and is not followed by
  another such source event, so that \<open>d\<close> is the event the map holds for the id when
  \<open>r\<close> is reached (with unique source ids both hold of every event). If \<open>d\<close> and
  \<open>r\<close> are not equal, exactly one update is produced for the id; it is \<open>d\<close> with
  the calendar id of \<open>r\<close> and with the description that serialises the prefix parsed
  from the description of \<open>r\<close> followed by the whole description of \<open>d\<close>.
  Reconciling \<open>r\<close> alone against \<open>d\<close> alone yields that update and nothing else.
\<close>

theorem update_keeps_annotation:
  assumes "calEvents = xs @ r # ys"
    and "SrcID r \<notin> SrcID ` set xs"
    and "srcEvents = ds @ d # es"
    and "\<forall>e\<in>set es. SrcID e = SrcID d \<longrightarrow> Before (End e) now"
    and "SrcID d = SrcID r"
    and "\<not> Before (End d) now"
    and "\<not> equal_ev d r"
  shows "withSrcID (SrcID d) (Updates (getOperations order now calEvents srcEvents)) = [newUpdate r d] \<and>
         newUpdate r d =
           d\<lparr>calEventID := calEventID r,
             Description := String \<lparr>prefix = prefix (parseDescription (Description r)),
                                    suffix = Description d\<rparr>\<rparr> \<and>
         getOperations order now [r] [d] = \<lparr>Deletes = [], Updates = [newUpdate r d], Adds = []\<rparr>"
proof -
  have L: "withSrcID (SrcID d) (live now srcEvents) = withSrcID (SrcID d) (live now ds) @ [d]"
    using assms(3) last_live_withSrcID [OF assms(6) assms(4)] by simp
  have R: "withSrcID (SrcID d) calEvents = r # withSrcID (SrcID d) ys"
    using assms(1,2,5) first_withSrcID [of r xs ys] by simp
  have "withSrcID (SrcID d) (Updates (getOperations order now calEvents srcEvents)) = [newUpdate r d]"
    using assms(7) by (simp add: getOperations_Updates L R)
  moreover have "getOperations order now [r] [d] = \<lparr>Deletes = [], Updates = [newUpdate r d], Adds = []\<rparr>"
    using getOperations_single_pair [OF assms(5,6)] assms(7) by simp
  ultimately show ?thesis using newUpdate_fields by simp
qed

theorem update_keeps_annotation_witness:
  "getOperations [''x''] \<lparr>instant = 0, zone = 0\<rparr>
     [\<lparr>Title = ''old'', Start = \<lparr>instant = 10, zone = 0\<rparr>, End = \<lparr>instant = 20, zone = 0\<rparr>,
       Where = ''w'', Description = ''human note'' @ [newline] @ delim @ [newline] @ ''old body'',
       SrcID = ''x'', calEventID = ''r1''\<rparr>]
     [\<lparr>Title = ''old'', Start = \<lparr>instant = 10, zone = 0\<rparr>, End = \<lparr>instant = 20, zone = 0\<rparr>,
       Where = ''w'', Description = ''new body'', SrcID = ''x'', calEventID = []\<rparr>] =
   \<lparr>Deletes = [],
    Updates =
      [\<lparr>Title = ''old'', Start = \<lparr>instant = 10, zone = 0\<rparr>, End = \<lparr>instant = 20, zone = 0\<rparr>,
        Where = ''w'', Description = ''human note'' @ [newline] @ delim @ [newline] @ ''new body'',
        SrcID = ''x'', calEventID = ''r1''\<rparr>],
    Adds = []\<rparr>"
proof -
  define rd where "rd = ''human note'' @ [newline] @ delim @ [newline] @ ''old body''"
  let ?now = "\<lparr>instant = 0, zone = 0\<rparr>"
  let ?r = "\<lparr>Title = ''old'', Start = \<lparr>instant = 10, zone = 0\<rparr>, End = \<lparr>instant = 20, zone = 0\<rparr>,
       Where = ''w'', Description = rd, SrcID = ''x'', calEventID = ''r1''\<rparr>"
  let ?d = "\<lparr>Title = ''old'', Start = \<lparr>instant = 10, zone = 0\<rparr>, End = \<lparr>instant = 20, zone = 0\<rparr>,
       Where = ''w'', Description = ''new body'', SrcID = ''x'', calEventID = []\<rparr>"
  have n: "\<not> Contains ''human note'' delim" by (simp add: Contains_def delim_def)
  have "parseDescription (String \<lparr>prefix = ''human note'', suffix = ''old body''\<rparr>) =
          \<lparr>prefix = ''human note'', suffix = ''old body''\<rparr>"
    using n by (rule parse_String)
  then have pr: "parseDescription rd = \<lparr>prefix = ''human note'', suffix = ''old body''\<rparr>"
    by (simp add: String_def rd_def)
  have pd: "parseDescription ''new body'' = \<lparr>prefix = [], suffix = ''new body''\<rparr>"
    by (rule parseDescription_absent) (simp add: Contains_def delim_def)
  have h1: "[?r] = [] @ ?r # []" by simp
  have h2: "SrcID ?r \<notin> SrcID ` set []" by simp
  have h3: "[?d] = [] @ ?d # []" by simp
  have h4: "\<forall>e\<in>set []. SrcID e = SrcID ?d \<longrightarrow> Before (End e) ?now" by simp
  have h5: "SrcID ?d = SrcID ?r" by simp
  have h6: "\<not> Before (End ?d) ?now" by (simp add: Before_def)
  have h7: "\<not> equal_ev ?d ?r" by (simp add: equal_ev_def Equal_def pr pd)
  have "getOperations [''x''] ?now [?r] [?d] =
          \<lparr>Deletes = [], Updates = [newUpdate ?r ?d], Adds = []\<rparr>"
    using update_keeps_annotation [OF h1 h2 h3 h4 h5 h6 h7, of "[''x'']"] by blast
  moreover have "newUpdate ?r ?d =
      \<lparr>Title = ''old'', Start = \<lparr>instant = 10, zone = 0\<rparr>, End = \<lparr>instant = 20, zone = 0\<rparr>,
        Where = ''w'', Description = ''human note'' @ [newline] @ delim @ [newline] @ ''new body'',
        SrcID = ''x'', calEventID = ''r1''\<rparr>"
    by (simp add: newUpdate_def pr String_def)
  ultimately show ?thesis unfolding rd_def by simp
qed

text \<open>
  C10 (several calendar events with one source id). Let \<open>r\<close> be the first calendar
  event carrying its source id, and let some source event that has not ended carry that id;
  \<open>d\<close> is the one the map holds, the last of them. Then \<open>r\<close> alone is matched with
  \<open>d\<close>: the updates for that id are none when \<open>d\<close> and \<open>r\<close> are equal and the single
  update built from \<open>r\<close> otherwise; and the deletes for that id are exactly the later
  calendar events carrying it.
\<close>

theorem duplicate_remote_ids:
  assumes "calEvents = xs @ r # ys"
    and "SrcID r \<notin> SrcID ` set xs"
    and "withSrcID (SrcID r) (live now srcEvents) \<noteq> []"
    and "d = last (withSrcID (SrcID r) (live now srcEvents))"
  shows "withSrcID (SrcID r) (Updates (getOperations order now calEvents srcEvents)) =
           (if equal_ev d r then [] else [newUpdate r d]) \<and>
         withSrcID (SrcID r) (Deletes (getOperations order now calEvents srcEvents)) =
           withSrcID (SrcID r) ys"
proof -
  have R: "withSrcID (SrcID r) calEvents = r # withSrcID (SrcID r) ys"
    using assms(1) first_withSrcID [OF assms(2), of ys] by simp
  from assms(3,4) show ?thesis
    by (simp add: getOperations_Updates getOperations_Deletes R)
qed

theorem duplicate_remote_ids_witness:
  "withSrcID ''x''
     (Updates (getOperations [''x''] \<lparr>instant = 0, zone = 0\<rparr>
        [\<lparr>Title = ''t'', Start = \<lparr>instant = 10, zone = 0\<rparr>, End = \<lparr>instant = 20, zone = 0\<rparr>,
          Where = ''w'', Description = ''body'', SrcID = ''x'', calEventID = ''r1''\<rparr>,
         \<lparr>Title = ''t'', Start = \<lparr>instant = 10, zone = 0\<rparr>, End = \<lparr>instant = 20, zone = 0\<rparr>,
          Where = ''w'', Description = ''body'', SrcID = ''x'', calEventID = ''r2''\<rparr>]
        [\<lparr>Title = ''t'', Start = \<lparr>instant = 10, zone = 0\<rparr>, End = \<lparr>instant = 20, zone = 0\<rparr>,
          Where = ''w'', Description = ''body'', SrcID = ''x'', calEventID = []\<rparr>])) = [] \<and>
   withSrcID ''x''
     (Deletes (getOperations [''x''] \<lparr>instant = 0, zone = 0\<rparr>
        [\<lparr>Title = ''t'', Start = \<lparr>instant = 10, zone = 0\<rparr>, End = \<lparr>instant = 20, zone = 0\<rparr>,
          Where = ''w'', Description = ''body'', SrcID = ''x'', calEventID = ''r1''\<rparr>,
         \<lparr>Title = ''t'', Start = \<lparr>instant = 10, zone = 0\<rparr>, End = \<lparr>instant = 20, zone = 0\<rparr>,
          Where = ''w'', Description = ''body'', SrcID = ''x'', calEventID = ''r2''\<rparr>]
        [\<lparr>Title = ''t'', Start = \<lparr>instant = 10, zone = 0\<rparr>, End = \<lparr>instant = 20, zone = 0\<rparr>,
          Where = ''w'', Description = ''body'', SrcID = ''x'', calEventID = []\<rparr>])) =
     [\<lparr>Title = ''t'', Start = \<lparr>instant = 10, zone = 0\<rparr>, End = \<lparr>instant = 20, zone = 0\<rparr>,
       Where = ''w'', Description = ''body'', SrcID = ''x'', calEventID = ''r2''\<rparr>]"
proof -
  let ?now = "\<lparr>instant = 0, zone = 0\<rparr>"
  let ?d = "\<lparr>Title = ''t'', Start = \<lparr>instant = 10, zone = 0\<rparr>, End = \<lparr>instant = 20, zone = 0\<rparr>,
          Where = ''w'', Description = ''body'', SrcID = ''x'', calEventID = []\<rparr>"
  let ?r1 = "?d\<lparr>calEventID := ''r1''\<rparr>"
  let ?r2 = "?d\<lparr>calEventID := ''r2''\<rparr>"
  have h1: "[?r1, ?r2] = [] @ ?r1 # [?r2]" by simp
  have h2: "SrcID ?r1 \<notin> SrcID ` set []" by simp
  have h3: "withSrcID (SrcID ?r1) (live ?now [?d]) \<noteq> []" by (simp add: Before_def)
  have h4: "?d = last (withSrcID (SrcID ?r1) (live ?now [?d]))" by (simp add: Before_def)
  have e: "equal_ev ?d ?r1" by (simp add: equal_ev_def Equal_def)
  from duplicate_remote_ids [OF h1 h2 h3 h4, of "[''x'']"] e show ?thesis by simp
qed

section \<open>The reconciler: partition, expiry, stability\<close>

text \<open>
  C4 as stated fails: of two source events that have not ended and carry the same source
  id, the earlier one is replaced in the map. With no calendar event at all, the result
  has no delete, no update and the later event as its only add: the earlier event is in
  none of the three groups, and it is not unchanged either, there being no calendar event
  it could be equal to.
\<close>

theorem partition_counterexample:
  "getOperations [''x''] \<lparr>instant = 0, zone = 0\<rparr> []
     [\<lparr>Title = ''first'', Start = \<lparr>instant = 10, zone = 0\<rparr>, End = \<lparr>instant = 20, zone = 0\<rparr>,
       Where = ''w'', Description = ''body'', SrcID = ''x'', calEventID = []\<rparr>,
      \<lparr>Title = ''second'', Start = \<lparr>instant = 10, zone = 0\<rparr>, End = \<lparr>instant = 20, zone = 0\<rparr>,
       Where = ''w'', Description = ''body'', SrcID = ''x'', calEventID = []\<rparr>] =
   \<lparr>Deletes = [], Updates = [],
    Adds = [\<lparr>Title = ''second'', Start = \<lparr>instant = 10, zone = 0\<rparr>, End = \<lparr>instant = 20, zone = 0\<rparr>,
       Where = ''w'', Description = ''body'', SrcID = ''x'', calEventID = []\<rparr>]\<rparr> \<and>
   \<not> Before (End \<lparr>Title = ''first'', Start = \<lparr>instant = 10, zone = 0\<rparr>, End = \<lparr>instant = 20, zone = 0\<rparr>,
       Where = ''w'', Description = ''body'', SrcID = ''x'', calEventID = []\<rparr>) \<lparr>instant = 0, zone = 0\<rparr>"
  by (simp add: Before_def getOperations_def rangeMap_def List.map_filter_simps)

text \<open>
  C4 as amended. Take any input, any order of the final loop that visits every key once,
  and any source id \<open>k\<close>; let \<open>R\<close> be the calendar events carrying \<open>k\<close> and \<open>L\<close> the
  source events carrying \<open>k\<close> that have not ended. If \<open>L\<close> is empty, the deletes for
  \<open>k\<close> are all of \<open>R\<close> and there is no update and no add for \<open>k\<close>. Otherwise the map
  holds the last event \<open>d\<close> of \<open>L\<close>: with \<open>R\<close> empty, \<open>d\<close> is the one add for \<open>k\<close>
  and nothing else is emitted for \<open>k\<close>; else the first event of \<open>R\<close> is matched with
  \<open>d\<close> (no operation when they are equal, one update when they are not), the rest of
  \<open>R\<close> are the deletes for \<open>k\<close>, and nothing is added for \<open>k\<close>. So every calendar
  event is in exactly one of unchanged, updates and deletes, and every source event that
  has not ended and is the last such event with its id is in exactly one of unchanged,
  updates and adds; an earlier one with the same id is in none.
\<close>

theorem partition_per_id:
  assumes "distinct order" and "SrcID ` set srcEvents \<subseteq> set order"
  shows "(withSrcID k (Deletes (getOperations order now calEvents srcEvents)),
          withSrcID k (Updates (getOperations order now calEvents srcEvents)),
          withSrcID k (Adds (getOperations order now calEvents srcEvents))) =
     (let R = withSrcID k calEvents; L = withSrcID k (live now srcEvents) in
      if L = [] then (R, [], [])
      else if R = [] then ([], [], [last L])
      else (tl R, if equal_ev (last L) (hd R) then [] else [newUpdate (hd R) (last L)], []))"
proof (cases "withSrcID k (live now srcEvents) = []")
  case True
  then show ?thesis
    by (simp add: getOperations_Deletes getOperations_Updates getOperations_Adds_none)
next
  case L: False
  from last_in_live [OF L] assms(2) have k: "k \<in> set order" by auto
  show ?thesis
  proof (cases "withSrcID k calEvents")
    case Nil
    with L k assms(1) show ?thesis
      by (simp add: getOperations_Deletes getOperations_Updates getOperations_Adds_one)
  next
    case (Cons r rs)
    with L show ?thesis
      by (simp add: getOperations_Deletes getOperations_Updates getOperations_Adds_none)
  qed
qed

theorem partition_per_id_witness:
  "distinct [''x'', ''y''] \<and>
   (withSrcID ''x'' (Deletes (getOperations [''x'', ''y''] \<lparr>instant = 0, zone = 0\<rparr>
      [\<lparr>Title = ''t'', Start = \<lparr>instant = 10, zone = 0\<rparr>, End = \<lparr>instant = 20, zone = 0\<rparr>,
        Where = ''w'', Description = ''body'', SrcID = ''x'', calEventID = ''r1''\<rparr>,
       \<lparr>Title = ''t'', Start = \<lparr>instant = 10, zone = 0\<rparr>, End = \<lparr>instant = 20, zone = 0\<rparr>,
        Where = ''w'', Description = ''body'', SrcID = ''x'', calEventID = ''r2''\<rparr>]
      [\<lparr>Title = ''t'', Start = \<lparr>instant = 10, zone = 0\<rparr>, End = \<lparr>instant = 20, zone = 0\<rparr>,
        Where = ''w'', Description = ''body'', SrcID = ''x'', calEventID = []\<rparr>,
       \<lparr>Title = ''u'', Start = \<lparr>instant = 10, zone = 0\<rparr>, End = \<lparr>instant = 20, zone = 0\<rparr>,
        Where = ''w'', Description = ''body'', SrcID = ''y'', calEventID = []\<rparr>])),
    withSrcID ''x'' (Updates (getOperations [''x'', ''y''] \<lparr>instant = 0, zone = 0\<rparr>
      [\<lparr>Title = ''t'', Start = \<lparr>instant = 10, zone = 0\<rparr>, End = \<lparr>instant = 20, zone = 0\<rparr>,
        Where = ''w'', Description = ''body'', SrcID = ''x'', calEventID = ''r1''\<rparr>,
       \<lparr>Title = ''t'', Start = \<lparr>instant = 10, zone = 0\<rparr>, End = \<lparr>instant = 20, zone = 0\<rparr>,
        Where = ''w'', Description = ''body'', SrcID = ''x'', calEventID = ''r2''\<rparr>]
      [\<lparr>Title = ''t'', Start = \<lparr>instant = 10, zone = 0\<rparr>, End = \<lparr>instant = 20, zone = 0\<rparr>,
        Where = ''w'', Description = ''body'', SrcID = ''x'', calEventID = []\<rparr>,
       \<lparr>Title = ''u'', Start = \<lparr>instant = 10, zone = 0\<rparr>, End = \<lparr>instant = 20, zone = 0\<rparr>,
        Where = ''w'', Description = ''body'', SrcID = ''y'', calEventID = []\<rparr>])),
    withSrcID ''x'' (Adds (getOperations [''x'', ''y''] \<lparr>instant = 0, zone = 0\<rparr>
      [\<lparr>Title = ''t'', Start = \<lparr>instant = 10, zone = 0\<rparr>, End = \<lparr>instant = 20, zone = 0\<rparr>,
        Where = ''w'', Description = ''body'', SrcID = ''x'', calEventID = ''r1''\<rparr>,
       \<lparr>Title = ''t'', Start = \<lparr>instant = 10, zone = 0\<rparr>, End = \<lparr>instant = 20, zone = 0\<rparr>,
        Where = ''w'', Description = ''body'', SrcID = ''x'', calEventID = ''r2''\<rparr>]
      [\<lparr>Title = ''t'', Start = \<lparr>instant = 10, zone = 0\<rparr>, End = \<lparr>instant = 20, zone = 0\<rparr>,
        Where = ''w'', Description = ''body'', SrcID = ''x'', calEventID = []\<rparr>,
       \<lparr>Title = ''u'', Start = \<lparr>instant = 10, zone = 0\<rparr>, End = \<lparr>instant = 20, zone = 0\<rparr>,
        Where = ''w'', Description = ''body'', SrcID = ''y'', calEventID = []\<rparr>]))) =
   ([\<lparr>Title = ''t'', Start = \<lparr>instant = 10, zone = 0\<rparr>, End = \<lparr>instant = 20, zone = 0\<rparr>,
        Where = ''w'', Description = ''body'', SrcID = ''x'', calEventID = ''r2''\<rparr>], [], [])"
proof -
  let ?now = "\<lparr>instant = 0, zone = 0\<rparr>"
  let ?d = "\<lparr>Title = ''t'', Start = \<lparr>instant = 10, zone = 0\<rparr>, End = \<lparr>instant = 20, zone = 0\<rparr>,
        Where = ''w'', Description = ''body'', SrcID = ''x'', calEventID = []\<rparr>"
  let ?e = "\<lparr>Title = ''u'', Start = \<lparr>instant = 10, zone = 0\<rparr>, End = \<lparr>instant = 20, zone = 0\<rparr>,
        Where = ''w'', Description = ''body'', SrcID = ''y'', calEventID = []\<rparr>"
  let ?r1 = "?d\<lparr>calEventID := ''r1''\<rparr>"
  let ?r2 = "?d\<lparr>calEventID := ''r2''\<rparr>"
  have h1: "distinct [''x'', ''y'']" by simp
  have h2: "SrcID ` set [?d, ?e] \<subseteq> set [''x'', ''y'']" by simp
  have e: "equal_ev ?d ?r1" by (simp add: equal_ev_def Equal_def)
  from partition_per_id [OF h1 h2, of "''x''" ?now "[?r1, ?r2]"] e h1
  show ?thesis by (simp add: Before_def Let_def)
qed

text \<open>
  C5 as stated fails: a source event whose end is the instant \<open>now\<close> has not an end
  strictly after \<open>now\<close>, and yet it is stored in the map and emitted as an add.
\<close>

theorem expiry_boundary_counterexample:
  "\<not> Before \<lparr>instant = 20, zone = 0\<rparr>
        (End \<lparr>Title = ''t'', Start = \<lparr>instant = 10, zone = 0\<rparr>, End = \<lparr>instant = 20, zone = 0\<rparr>,
              Where = ''w'', Description = ''body'', SrcID = ''x'', calEventID = []\<rparr>) \<and>
   srcLoop \<lparr>instant = 20, zone = 0\<rparr>
     [\<lparr>Title = ''t'', Start = \<lparr>instant = 10, zone = 0\<rparr>, End = \<lparr>instant = 20, zone = 0\<rparr>,
       Where = ''w'', Description = ''body'', SrcID = ''x'', calEventID = []\<rparr>] Map.empty ''x'' =
     Some \<lparr>Title = ''t'', Start = \<lparr>instant = 10, zone = 0\<rparr>, End = \<lparr>instant = 20, zone = 0\<rparr>,
       Where = ''w'', Description = ''body'', SrcID = ''x'', calEventID = []\<rparr> \<and>
   Adds (getOperations [''x''] \<lparr>instant = 20, zone = 0\<rparr> []
     [\<lparr>Title = ''t'', Start = \<lparr>instant = 10, zone = 0\<rparr>, End = \<lparr>instant = 20, zone = 0\<rparr>,
       Where = ''w'', Description = ''body'', SrcID = ''x'', calEventID = []\<rparr>]) =
     [\<lparr>Title = ''t'', Start = \<lparr>instant = 10, zone = 0\<rparr>, End = \<lparr>instant = 20, zone = 0\<rparr>,
       Where = ''w'', Description = ''body'', SrcID = ''x'', calEventID = []\<rparr>]"
  by (simp add: Before_def getOperations_def rangeMap_def List.map_filter_simps)

text \<open>
  C5 as amended. A source event is stored in the map exactly when its end is not before
  \<open>now\<close> (an end at the instant \<open>now\<close> is kept). A source event whose end is before
  \<open>now\<close> is never emitted as an add, and the result is the same as if the ended events
  had not been passed at all; in particular, when every source event carrying an id has
  ended before \<open>now\<close>, every calendar event carrying that id is deleted.
\<close>

theorem expiry_filtering:
  "srcLoop now (ds @ [d]) m =
     (if Before (End d) now then srcLoop now ds m else (srcLoop now ds m)(SrcID d \<mapsto> d)) \<and>
   (\<forall>e\<in>set (Adds (getOperations order now calEvents srcEvents)). \<not> Before (End e) now) \<and>
   getOperations order now calEvents srcEvents = getOperations order now calEvents (live now srcEvents) \<and>
   ((\<forall>e\<in>set srcEvents. SrcID e = k \<longrightarrow> Before (End e) now) \<longrightarrow>
      withSrcID k (Deletes (getOperations order now calEvents srcEvents)) = withSrcID k calEvents)"
proof -
  have a: "srcLoop now (ds @ [d]) m =
     (if Before (End d) now then srcLoop now ds m else (srcLoop now ds m)(SrcID d \<mapsto> d))"
    by (simp add: srcLoop_append)
  have b: "\<forall>e\<in>set (Adds (getOperations order now calEvents srcEvents)). \<not> Before (End e) now"
    using Adds_live by blast
  have c: "getOperations order now calEvents srcEvents = getOperations order now calEvents (live now srcEvents)"
    by (simp add: getOperations_live)
  have d: "(\<forall>e\<in>set srcEvents. SrcID e = k \<longrightarrow> Before (End e) now) \<longrightarrow>
      withSrcID k (Deletes (getOperations order now calEvents srcEvents)) = withSrcID k calEvents"
    by (simp add: getOperations_Deletes all_expired_withSrcID)
  from a b c d show ?thesis by blast
qed

theorem expiry_filtering_witness:
  "Before (End \<lparr>Title = ''t'', Start = \<lparr>instant = 10, zone = 0\<rparr>, End = \<lparr>instant = 20, zone = 0\<rparr>,
                Where = ''w'', Description = ''body'', SrcID = ''x'', calEventID = []\<rparr>)
          \<lparr>instant = 30, zone = 0\<rparr> \<and>
   withSrcID ''x'' (Deletes (getOperations [''x''] \<lparr>instant = 30, zone = 0\<rparr>
     [\<lparr>Title = ''t'', Start = \<lparr>instant = 10, zone = 0\<rparr>, End = \<lparr>instant = 20, zone = 0\<rparr>,
       Where = ''w'', Description = ''body'', SrcID = ''x'', calEventID = ''r1''\<rparr>]
     [\<lparr>Title = ''t'', Start = \<lparr>instant = 10, zone = 0\<rparr>, End = \<lparr>instant = 20, zone = 0\<rparr>,
       Where = ''w'', Description = ''body'', SrcID = ''x'', calEventID = []\<rparr>])) =
     [\<lparr>Title = ''t'', Start = \<lparr>instant = 10, zone = 0\<rparr>, End = \<lparr>instant = 20, zone = 0\<rparr>,
       Where = ''w'', Description = ''body'', SrcID = ''x'', calEventID = ''r1''\<rparr>] \<and>
   getOperations [''x''] \<lparr>instant = 30, zone = 0\<rparr>
     [\<lparr>Title = ''t'', Start = \<lparr>instant = 10, zone = 0\<rparr>, End = \<lparr>instant = 20, zone = 0\<rparr>,
       Where = ''w'', Description = ''body'', SrcID = ''x'', calEventID = ''r1''\<rparr>]
     [\<lparr>Title = ''t'', Start = \<lparr>instant = 10, zone = 0\<rparr>, End = \<lparr>instant = 20, zone = 0\<rparr>,
       Where = ''w'', Description = ''body'', SrcID = ''x'', calEventID = []\<rparr>] =
   getOperations [''x''] \<lparr>instant = 30, zone = 0\<rparr>
     [\<lparr>Title = ''t'', Start = \<lparr>instant = 10, zone = 0\<rparr>, End = \<lparr>instant = 20, zone = 0\<rparr>,
       Where = ''w'', Description = ''body'', SrcID = ''x'', calEventID = ''r1''\<rparr>] []"
proof -
  let ?now = "\<lparr>instant = 30, zone = 0\<rparr>"
  let ?d = "\<lparr>Title = ''t'', Start = \<lparr>instant = 10, zone = 0\<rparr>, End = \<lparr>instant = 20, zone = 0\<rparr>,
       Where = ''w'', Description = ''body'', SrcID = ''x'', calEventID = []\<rparr>"
  let ?r = "?d\<lparr>calEventID := ''r1''\<rparr>"
  have h: "Before (End ?d) ?now" by (simp add: Before_def)
  then have all: "\<forall>e\<in>set [?d]. SrcID e = ''x'' \<longrightarrow> Before (End e) ?now" by simp
  have l: "live ?now [?d] = []" using h by simp
  note t = expiry_filtering [where now = ?now and calEvents = "[?r]" and srcEvents = "[?d]"
      and order = "[''x'']" and k = "''x''" and ds = "[]" and d = ?d and m = Map.empty]
  from t all have "withSrcID ''x'' (Deletes (getOperations [''x''] ?now [?r] [?d])) = withSrcID ''x'' [?r]"
    by blast
  moreover from t have "getOperations [''x''] ?now [?r] [?d] = getOperations [''x''] ?now [?r] (live ?now [?d])"
    by blast
  ultimately show ?thesis using h l by simp
qed

text \<open>
  C6 as stated fails, in two ways. A calendar event and the source event equal to it that
  both ended before \<open>now\<close>: the source event is dropped and the calendar event is deleted.
  And two calendar events with one source id, both equal to the one source event: the
  second is deleted.
\<close>

theorem noop_counterexample:
  "equal_ev
     \<lparr>Title = ''t'', Start = \<lparr>instant = 10, zone = 0\<rparr>, End = \<lparr>instant = 20, zone = 0\<rparr>,
      Where = ''w'', Description = ''body'', SrcID = ''x'', calEventID = []\<rparr>
     \<lparr>Title = ''t'', Start = \<lparr>instant = 10, zone = 0\<rparr>, End = \<lparr>instant = 20, zone = 0\<rparr>,
      Where = ''w'', Description = ''body'', SrcID = ''x'', calEventID = ''r1''\<rparr> \<and>
   Deletes (getOperations [''x''] \<lparr>instant = 30, zone = 0\<rparr>
     [\<lparr>Title = ''t'', Start = \<lparr>instant = 10, zone = 0\<rparr>, End = \<lparr>instant = 20, zone = 0\<rparr>,
       Where = ''w'', Description = ''body'', SrcID = ''x'', calEventID = ''r1''\<rparr>]
     [\<lparr>Title = ''t'', Start = \<lparr>instant = 10, zone = 0\<rparr>, End = \<lparr>instant = 20, zone = 0\<rparr>,
       Where = ''w'', Description = ''body'', SrcID = ''x'', calEventID = []\<rparr>]) =
     [\<lparr>Title = ''t'', Start = \<lparr>instant = 10, zone = 0\<rparr>, End = \<lparr>instant = 20, zone = 0\<rparr>,
       Where = ''w'', Description = ''body'', SrcID = ''x'', calEventID = ''r1''\<rparr>] \<and>
   equal_ev
     \<lparr>Title = ''t'', Start = \<lparr>instant = 10, zone = 0\<rparr>, End = \<lparr>instant = 20, zone = 0\<rparr>,
      Where = ''w'', Description = ''body'', SrcID = ''x'', calEventID = []\<rparr>
     \<lparr>Title = ''t'', Start = \<lparr>instant = 10, zone = 0\<rparr>, End = \<lparr>instant = 20, zone = 0\<rparr>,
      Where = ''w'', Description = ''body'', SrcID = ''x'', calEventID = ''r2''\<rparr> \<and>
   Deletes (getOperations [''x''] \<lparr>instant = 0, zone = 0\<rparr>
     [\<lparr>Title = ''t'', Start = \<lparr>instant = 10, zone = 0\<rparr>, End = \<lparr>instant = 20, zone = 0\<rparr>,
       Where = ''w'', Description = ''body'', SrcID = ''x'', calEventID = ''r1''\<rparr>,
      \<lparr>Title = ''t'', Start = \<lparr>instant = 10, zone = 0\<rparr>, End = \<lparr>instant = 20, zone = 0\<rparr>,
       Where = ''w'', Description = ''body'', SrcID = ''x'', calEventID = ''r2''\<rparr>]
     [\<lparr>Title = ''t'', Start = \<lparr>instant = 10, zone = 0\<rparr>, End = \<lparr>instant = 20, zone = 0\<rparr>,
       Where = ''w'', Description = ''body'', SrcID = ''x'', calEventID = []\<rparr>]) =
     [\<lparr>Title = ''t'', Start = \<lparr>instant = 10, zone = 0\<rparr>, End = \<lparr>instant = 20, zone = 0\<rparr>,
       Where = ''w'', Description = ''body'', SrcID = ''x'', calEventID = ''r2''\<rparr>]"
  by (simp add: equal_ev_def Equal_def Before_def getOperations_def rangeMap_def
      List.map_filter_simps)

text \<open>
  C6 as amended. When every calendar event is equal (by \<open>equal\<close>) to some source event
  and every source event to some calendar event, no source event has ended before
  \<open>now\<close>, and the calendar events carry pairwise different source ids, the result has
  no delete, no update and no add.
\<close>

theorem noop_stability:
  assumes "\<forall>r\<in>set calEvents. \<exists>d\<in>set srcEvents. equal_ev d r"
    and "\<forall>d\<in>set srcEvents. \<exists>r\<in>set calEvents. equal_ev d r"
    and "\<forall>d\<in>set srcEvents. \<not> Before (End d) now"
    and "distinct (map SrcID calEvents)"
  shows "getOperations order now calEvents srcEvents = \<lparr>Deletes = [], Updates = [], Adds = []\<rparr>"
proof -
  let ?c = "getOperations order now calEvents srcEvents"
  have live: "live now srcEvents = srcEvents" using assms(3) by (rule live_all)
  have per_id: "withSrcID k (Deletes ?c) = [] \<and> withSrcID k (Updates ?c) = [] \<and>
                withSrcID k (Adds ?c) = []" for k
  proof (cases "withSrcID k srcEvents = []")
    case True
    have "withSrcID k calEvents = []"
    proof (rule ccontr)
      assume ne: "withSrcID k calEvents \<noteq> []"
      from withSrcID_hd [OF ne] obtain r where r: "r \<in> set calEvents" "SrcID r = k" by blast
      with assms(1) obtain d where d: "d \<in> set srcEvents" "equal_ev d r" by blast
      from d(2) r(2) have "SrcID d = k" by (simp add: equal_ev_SrcID)
      with d(1) withSrcID_nonempty [of d srcEvents] True show False by simp
    qed
    with True live show ?thesis
      by (simp add: getOperations_Deletes getOperations_Updates getOperations_Adds_none)
  next
    case False
    with live have L: "withSrcID k (live now srcEvents) \<noteq> []" by simp
    let ?d = "last (withSrcID k (live now srcEvents))"
    from last_in_live [OF L] have d: "?d \<in> set srcEvents" "SrcID ?d = k" by simp_all
    with assms(2) obtain r where r: "r \<in> set calEvents" "equal_ev ?d r" by blast
    from r(2) d(2) have "SrcID r = k" using equal_ev_SrcID by fastforce
    with withSrcID_distinct [OF assms(4) r(1)] have R: "withSrcID k calEvents = [r]" by simp
    from L R r(2) show ?thesis
      by (simp add: getOperations_Deletes getOperations_Updates getOperations_Adds_none)
  qed
  have "Deletes ?c = []" by (rule withSrcID_all_empty) (simp add: per_id)
  moreover have "Updates ?c = []" by (rule withSrcID_all_empty) (simp add: per_id)
  moreover have "Adds ?c = []" by (rule withSrcID_all_empty) (simp add: per_id)
  ultimately show ?thesis by (rule Changes_empty)
qed

theorem noop_stability_witness:
  "getOperations [] \<lparr>instant = 0, zone = 0\<rparr>
     [testCalEvent ''This is a comment'' [] (newSrcEvent ''hasComment'' \<lparr>instant = 10, zone = 0\<rparr>)]
     [newSrcEvent ''hasComment'' \<lparr>instant = 10, zone = 0\<rparr>] =
   \<lparr>Deletes = [], Updates = [], Adds = []\<rparr>"
proof -
  let ?now = "\<lparr>instant = 0, zone = 0\<rparr>"
  let ?d = "newSrcEvent ''hasComment'' \<lparr>instant = 10, zone = 0\<rparr>"
  let ?r = "testCalEvent ''This is a comment'' [] ?d"
  have pd: "parseDescription (Description ?d) = \<lparr>prefix = [], suffix = Description ?d\<rparr>"
    by (rule parseDescription_absent) (simp add: newSrcEvent_def cat_def Contains_def delim_def)
  have "\<not> Contains ''This is a comment'' delim" by (simp add: Contains_def delim_def)
  then have pr: "parseDescription (String \<lparr>prefix = ''This is a comment'', suffix = Description ?d\<rparr>) =
      \<lparr>prefix = ''This is a comment'', suffix = Description ?d\<rparr>"
    by (rule parse_String)
  have dr: "Description ?r = String \<lparr>prefix = ''This is a comment'', suffix = Description ?d\<rparr>"
    by (simp add: testCalEvent_def)
  have e: "equal_ev ?d ?r"
    unfolding equal_ev_def Let_def dr pr pd by (simp add: testCalEvent_def Equal_def)
  have h1: "\<forall>r\<in>set [?r]. \<exists>d\<in>set [?d]. equal_ev d r" using e by simp
  have h2: "\<forall>d\<in>set [?d]. \<exists>r\<in>set [?r]. equal_ev d r" using e by simp
  have h3: "\<forall>d\<in>set [?d]. \<not> Before (End d) ?now"
    by (simp add: newSrcEvent_def Add_def Hour_def Before_def)
  have h4: "distinct (map SrcID [?r])" by simp
  from noop_stability [OF h1 h2 h3 h4] show ?thesis .
qed

end
